theory Spec2Isabelle
  imports Main "HOL-Library.Sublist"
begin

section \<open>Python string operations used by the scraper and the bot\<close>

text \<open>
  Python strings are modelled as \<^typ>\<open>string\<close>, one \<^typ>\<open>char\<close> per code point, so the
  development covers the text over the code points U+0000 to U+00FF. On these,
  \<open>str.lower\<close> maps \<open>A..Z\<close> to \<open>a..z\<close> and U+00C0..U+00DE, the multiplication sign U+00D7
  apart, to U+00E0..U+00FE; the whitespace of \<open>str.split()\<close> and \<open>str.strip()\<close> is
  U+0009..U+000D, U+001C..U+001F, the space, U+0085 and U+00A0.
\<close>

definition lower_char :: "char \<Rightarrow> char" where
  "lower_char c =
     (let n = (of_char c :: nat)
      in if (65 \<le> n \<and> n \<le> 90) \<or> (192 \<le> n \<and> n \<le> 222 \<and> n \<noteq> 215) then char_of (n + 32)
         else c)"

definition str_lower :: "string \<Rightarrow> string" where
  "str_lower s = map lower_char s"

definition is_space :: "char \<Rightarrow> bool" where
  "is_space c = (c \<in> set [CHR 0x09, CHR 0x0A, CHR 0x0B, CHR 0x0C, CHR 0x0D,
                            CHR 0x1C, CHR 0x1D, CHR 0x1E, CHR 0x1F, CHR '' '',
                            CHR 0x85, CHR 0xA0])"

text \<open>\<open>s.split()\<close>: the maximal runs of non-whitespace characters, in order. The first
  argument is the word being read, reversed.\<close>

fun split_words :: "string \<Rightarrow> string \<Rightarrow> string list" where
  "split_words cur [] = (if cur = [] then [] else [rev cur])"
| "split_words cur (c # cs) =
     (if is_space c then (if cur = [] then split_words [] cs else rev cur # split_words [] cs)
      else split_words (c # cur) cs)"

definition str_split :: "string \<Rightarrow> string list" where
  "str_split s = split_words [] s"

text \<open>\<open>s.split(sep)\<close> for a one-character separator: never the empty list.\<close>

fun split_on :: "char \<Rightarrow> string \<Rightarrow> string list" where
  "split_on sep [] = [[]]"
| "split_on sep (c # cs) =
     (if c = sep then [] # split_on sep cs
      else (case split_on sep cs of [] \<Rightarrow> [[c]] | w # ws \<Rightarrow> (c # w) # ws))"

text \<open>\<open>s.strip()\<close>.\<close>

definition str_strip :: "string \<Rightarrow> string" where
  "str_strip s = rev (dropWhile is_space (rev (dropWhile is_space s)))"

text \<open>\<open>s.replace(old, new)\<close> for a one-character \<open>old\<close>.\<close>

definition str_replace :: "char \<Rightarrow> string \<Rightarrow> string \<Rightarrow> string" where
  "str_replace old new s = concat (map (\<lambda>c. if c = old then new else [c]) s)"

text \<open>\<open>sep.join(xs)\<close>.\<close>

fun str_join :: "string \<Rightarrow> string list \<Rightarrow> string" where
  "str_join sep [] = []"
| "str_join sep [x] = x"
| "str_join sep (x # y # ys) = x @ sep @ str_join sep (y # ys)"

text \<open>\<open>needle in hay\<close>: the substring test. The empty string is in every string.\<close>

fun contains :: "string \<Rightarrow> string \<Rightarrow> bool" where
  "contains needle [] = (needle = [])"
| "contains needle (c # cs) = (prefix needle (c # cs) \<or> contains needle cs)"

text \<open>\<open>hay.count(needle)\<close>: the number of non-overlapping occurrences, scanning from the
  left; for the empty needle one more than the length.\<close>

function str_count :: "string \<Rightarrow> string \<Rightarrow> nat" where
  "str_count [] needle = (if needle = [] then 1 else 0)"
| "str_count (c # cs) needle =
     (if needle = [] then 1 + str_count cs needle
      else if prefix needle (c # cs) then 1 + str_count (drop (length needle - 1) cs) needle
      else str_count cs needle)"
  by pat_completeness auto
termination
  by (relation "measure (\<lambda>(hay, needle). length hay)") auto

text \<open>\<open>xs[:n]\<close> for a Python integer \<open>n\<close>: a negative bound counts from the end.\<close>

definition slice_to :: "'a list \<Rightarrow> int \<Rightarrow> 'a list" where
  "slice_to xs n = (if 0 \<le> n then take (nat n) xs else take (nat (int (length xs) + n)) xs)"

text \<open>\<open>xs.sort(key=key, reverse=True)\<close>: the list is reversed, sorted stably in ascending
  order of the key, and reversed again, so equal keys keep their original order.\<close>

definition sort_reverse :: "('a \<Rightarrow> int) \<Rightarrow> 'a list \<Rightarrow> 'a list" where
  "sort_reverse key xs = rev (sort_key key (rev xs))"

section \<open>The data model\<close>

text \<open>
  A page record is the dictionary that \<open>extract_content\<close> builds, with its six keys;
  \<open>doc.get(key, default)\<close> on such a record is the field.
\<close>

record heading =
  h_level :: string
  h_text :: string

record page_record =
  url :: string
  title :: string
  content :: string
  headings :: "heading list"
  code_snippets :: "string list"
  links :: "string list"

record search_hit =
  hit_doc :: page_record
  hit_score :: int

record doc_bot =
  docs_file :: string
  docs_data :: "page_record list"

section \<open>\<open>DocBot.search_docs\<close> (server.py)\<close>

text \<open>The body of the loop over the headings of one document.\<close>

definition heading_score :: "string \<Rightarrow> string list \<Rightarrow> heading \<Rightarrow> int \<Rightarrow> int" where
  "heading_score query_lower query_terms hd_rec score =
     (let heading_text = str_lower (h_text hd_rec);
          score = (if contains query_lower heading_text then score + 8 else score)
      in fold (\<lambda>term score. if contains term heading_text then score + 3 else score)
           query_terms score)"

text \<open>The body of the loop over \<open>docs_data\<close>, up to the test \<open>score > 0\<close>.\<close>

definition doc_score :: "string \<Rightarrow> string list \<Rightarrow> page_record \<Rightarrow> int" where
  "doc_score query_lower query_terms doc =
     (let score = 0;
          title_lc = str_lower (title doc);
          content_lc = str_lower (content doc);
          score = fold (\<lambda>term score. if contains term title_lc then score + 15 else score)
                    query_terms score;
          score = (if contains query_lower title_lc then score + 20 else score);
          score = (if contains query_lower content_lc then score + 10 else score);
          score = fold (\<lambda>term score.
                      if length term > 2 then score + int (str_count content_lc term) * 2
                      else score)
                    query_terms score
      in fold (heading_score query_lower query_terms) (headings doc) score)"

definition search_docs :: "doc_bot \<Rightarrow> string \<Rightarrow> int \<Rightarrow> page_record list" where
  "search_docs self query max_results =
     (let query_lower = str_lower query;
          query_terms = str_split query_lower;
          results = fold (\<lambda>doc results.
                        let score = doc_score query_lower query_terms doc
                        in if score > 0 then results @ [\<lparr>hit_doc = doc, hit_score = score\<rparr>]
                           else results)
                      (docs_data self) [];
          results = sort_reverse hit_score results
      in map hit_doc (slice_to results max_results))"

text \<open>The score that \<open>search_docs\<close> gives a document for a query.\<close>

definition score_of :: "string \<Rightarrow> page_record \<Rightarrow> int" where
  "score_of query doc = doc_score (str_lower query) (str_split (str_lower query)) doc"

text \<open>The scoring rules as the specification words them: each \<^emph>\<open>distinct\<close> query term
  found in the title earns 15; the other rules count every query term.\<close>

definition spec_score :: "string \<Rightarrow> page_record \<Rightarrow> int" where
  "spec_score query doc =
     (let q = str_lower query; terms = str_split q;
          t = str_lower (title doc); c = str_lower (content doc)
      in 15 * int (length (filter (\<lambda>term. contains term t) (remdups terms)))
       + (if contains q t then 20 else 0)
       + (if contains q c then 10 else 0)
       + 2 * (\<Sum>term\<leftarrow>filter (\<lambda>term. 2 < length term) terms. int (str_count c term))
       + (\<Sum>h\<leftarrow>headings doc. if contains q (str_lower (h_text h)) then 8 else 0)
       + (\<Sum>h\<leftarrow>headings doc.
            3 * int (length (filter (\<lambda>term. contains term (str_lower (h_text h))) terms))))"

section \<open>\<open>DocBot.generate_response\<close> (server.py)\<close>

definition apology :: string where
  "apology = ''I couldn't find specific information about that in the documentation. ''
           @ ''Please try rephrasing your question or ask about a different topic.''"

definition no_content_message :: string where
  "no_content_message = ''I found a relevant page but couldn't extract the content. ''
           @ ''Please check the source link below.''"

definition response_header :: "string \<Rightarrow> string" where
  "response_header doc_title =
     ''Based on '' @ [CHR 0x27] @ doc_title @ [CHR 0x27] @ '':'' @ [CHR 0x0A, CHR 0x0A]"

definition response_footer :: string where
  "response_footer = [CHR 0x0A, CHR 0x0A]
           @ ''For complete details, please refer to the documentation link below.''"

text \<open>The loop that collects the sentences containing a query term; it breaks as soon as
  three have been collected.\<close>

fun relevant_loop :: "string list \<Rightarrow> string list \<Rightarrow> string list \<Rightarrow> string list" where
  "relevant_loop query_terms [] relevant_sentences = relevant_sentences"
| "relevant_loop query_terms (sentence # rest) relevant_sentences =
     (let sentence_lower = str_lower sentence
      in if list_ex (\<lambda>term. contains term sentence_lower) query_terms
         then (let relevant_sentences = relevant_sentences @ [sentence]
               in if 3 \<le> length relevant_sentences then relevant_sentences
                  else relevant_loop query_terms rest relevant_sentences)
         else relevant_loop query_terms rest relevant_sentences)"

definition generate_response :: "string \<Rightarrow> page_record list \<Rightarrow> string" where
  "generate_response query relevant_docs =
     (case relevant_docs of
        [] \<Rightarrow> apology
      | top_doc # _ \<Rightarrow>
          if content top_doc = [] then no_content_message
          else
            let response = response_header (title top_doc);
                query_terms = str_split (str_lower query);
                sentences = split_on CHR ''.'' (str_replace CHR 0x0A ''. '' (content top_doc));
                sentences = map str_strip (filter (\<lambda>s. 20 < length (str_strip s)) sentences);
                relevant_sentences = relevant_loop query_terms sentences [];
                response =
                  (if relevant_sentences \<noteq> []
                   then response @ str_join ''. '' relevant_sentences @ ''.''
                   else
                     let meaningful_sentences = take 4 (filter (\<lambda>s. 30 < length s) sentences)
                     in if meaningful_sentences \<noteq> []
                        then response @ str_join ''. '' meaningful_sentences @ ''.''
                        else response @ take 500 (content top_doc) @ ''...'')
            in response @ response_footer)"

section \<open>\<open>CapillaryDocScraper\<close> (app.py)\<close>

text \<open>
  A parsed page is represented by the answers \<open>BeautifulSoup\<close> gives to the queries the
  scraper makes: the text of the first \<open>h1\<close> and of \<open>title\<close>, the three candidates for the
  main content root, and the \<open>href\<close> of every anchor that has one, in document order.
  For a content root: its text, the name and text of each heading inside it, and the text
  of each \<open>code\<close> or \<open>pre\<close> element inside it.
\<close>

record main_content =
  mc_text :: string
  mc_headings :: "(string \<times> string) list"
  mc_code :: "string list"

record soup =
  find_h1 :: "string option"
  find_title :: "string option"
  find_main :: "main_content option"
  find_article :: "main_content option"
  find_div_content :: "main_content option"
  anchors :: "string list"

text \<open>
  The library and the network are parameters. \<open>urljoin\<close> and \<open>netloc\<close> stand for
  \<open>urllib.parse.urljoin\<close> and \<open>urlparse(url).netloc\<close>; they are \<open>None\<close> on the arguments
  on which the library raises \<open>ValueError\<close>, as it does on \<open>http://[bad\<close>. \<open>fetch n url\<close>
  is the outcome of the request number \<open>n\<close> of a run when it goes to \<open>url\<close>:
  \<open>session.get\<close>, \<open>raise_for_status\<close> and the parser; \<open>None\<close> when one of them raises.
\<close>

record world =
  urljoin :: "string \<Rightarrow> string \<Rightarrow> string option"
  netloc :: "string \<Rightarrow> string option"
  fetch :: "nat \<Rightarrow> string \<Rightarrow> soup option"

datatype exn = ValueError

text \<open>The scraper object. \<open>requests\<close> is a ghost field: the log of the calls of
  \<open>session.get\<close>, each with its URL and whether the page was obtained.\<close>

record scraper =
  base_url :: string
  visited_urls :: "string set"
  scraped_data :: "page_record list"
  requests :: "(string \<times> bool) list"

definition init_scraper :: "string \<Rightarrow> scraper" where
  "init_scraper base = \<lparr>base_url = base, visited_urls = {}, scraped_data = [], requests = []\<rparr>"

definition is_valid_url :: "world \<Rightarrow> scraper \<Rightarrow> string \<Rightarrow> exn + bool" where
  "is_valid_url w self u =
     (case netloc w u of
        None \<Rightarrow> Inl ValueError
      | Some parsed \<Rightarrow>
          (case netloc w (base_url self) of
             None \<Rightarrow> Inl ValueError
           | Some base_parsed \<Rightarrow> Inr (parsed = base_parsed)))"

text \<open>Python's \<open>a or b\<close> on values that are \<open>None\<close> or a tag.\<close>

definition py_or :: "'a option \<Rightarrow> 'a option \<Rightarrow> 'a option" where
  "py_or a b = (case a of Some x \<Rightarrow> Some x | None \<Rightarrow> b)"

definition extract_content :: "soup \<Rightarrow> string \<Rightarrow> page_record" where
  "extract_content sp page_url =
     (let rec = \<lparr>url = page_url, title = [], content = [], headings = [],
                 code_snippets = [], links = []\<rparr>;
          title_tag = py_or (find_h1 sp) (find_title sp);
          rec = (case title_tag of Some t \<Rightarrow> rec\<lparr>title := t\<rparr> | None \<Rightarrow> rec);
          main_root = py_or (find_main sp) (py_or (find_article sp) (find_div_content sp))
      in case main_root of
           None \<Rightarrow> rec
         | Some m \<Rightarrow>
             let rec = rec\<lparr>content := mc_text m\<rparr>;
                 rec = fold (\<lambda>h r. r\<lparr>headings := headings r
                                        @ [\<lparr>h_level = fst h, h_text = snd h\<rparr>]\<rparr>)
                         (mc_headings m) rec
             in fold (\<lambda>snippet r. if 10 < length snippet
                                   then r\<lparr>code_snippets := code_snippets r @ [snippet]\<rparr>
                                   else r)
                  (mc_code m) rec)"

text \<open>Line 69 of app.py: \<open>absolute_url.split('#')[0].split('?')[0]\<close>.\<close>

definition clean_url :: "string \<Rightarrow> string" where
  "clean_url absolute_url = hd (split_on CHR ''?'' (hd (split_on CHR ''#'' absolute_url)))"

text \<open>The loop of \<open>get_links\<close> over the anchors; an exception of \<open>urljoin\<close> or of
  \<open>is_valid_url\<close> ends it.\<close>

fun get_links_loop ::
  "world \<Rightarrow> scraper \<Rightarrow> string \<Rightarrow> string list \<Rightarrow> string list \<Rightarrow> exn + string list" where
  "get_links_loop w self current_url [] links_acc = Inr links_acc"
| "get_links_loop w self current_url (href # rest) links_acc =
     (case urljoin w current_url href of
        None \<Rightarrow> Inl ValueError
      | Some absolute_url \<Rightarrow>
          let cleaned = clean_url absolute_url
          in (case is_valid_url w self cleaned of
                Inl e \<Rightarrow> Inl e
              | Inr valid \<Rightarrow>
                  get_links_loop w self current_url rest
                    (if valid \<and> cleaned \<notin> visited_urls self then links_acc @ [cleaned]
                     else links_acc)))"

definition get_links :: "world \<Rightarrow> scraper \<Rightarrow> soup \<Rightarrow> string \<Rightarrow> exn + string list" where
  "get_links w self sp current_url = get_links_loop w self current_url (anchors sp) []"

text \<open>\<open>scrape_page\<close> returns \<open>False\<close> or a list of links, and changes the scraper. Its
  \<open>except\<close> clause also catches what \<open>get_links\<close> raises, after the record has been
  stored and the URL marked visited.\<close>

datatype scrape_result = ReturnFalse | ReturnLinks "string list"

fun truthy :: "scrape_result \<Rightarrow> bool" where
  "truthy ReturnFalse = False"
| "truthy (ReturnLinks ls) = (ls \<noteq> [])"

fun links_of :: "scrape_result \<Rightarrow> string list" where
  "links_of ReturnFalse = []"
| "links_of (ReturnLinks ls) = ls"

definition scrape_page :: "world \<Rightarrow> scraper \<Rightarrow> string \<Rightarrow> scrape_result \<times> scraper" where
  "scrape_page w self page_url =
     (if page_url \<in> visited_urls self then (ReturnFalse, self)
      else case fetch w (length (requests self)) page_url of
             None \<Rightarrow> (ReturnLinks [], self\<lparr>requests := requests self @ [(page_url, False)]\<rparr>)
           | Some sp \<Rightarrow>
               let self = self\<lparr>requests := requests self @ [(page_url, True)]\<rparr>;
                   rec = extract_content sp page_url;
                   self = (if content rec \<noteq> []
                           then self\<lparr>scraped_data := scraped_data self @ [rec]\<rparr> else self);
                   self = self\<lparr>visited_urls := insert page_url (visited_urls self)\<rparr>
               in (case get_links w self sp page_url of
                     Inr new_links \<Rightarrow> (ReturnLinks new_links, self)
                   | Inl e \<Rightarrow> (ReturnLinks [], self)))"

text \<open>The state of the loop of \<open>scrape_documentation\<close>: the scraper and the two local
  variables. The log messages and the delay, taken non-negative, do not change it.\<close>

record crawl =
  crawler :: scraper
  urls_to_visit :: "string list"
  pages_scraped :: int

definition loop_cond :: "int \<Rightarrow> crawl \<Rightarrow> bool" where
  "loop_cond max_pages st = (urls_to_visit st \<noteq> [] \<and> pages_scraped st < max_pages)"

definition loop_body :: "world \<Rightarrow> crawl \<Rightarrow> crawl" where
  "loop_body w st =
     (case urls_to_visit st of
        [] \<Rightarrow> st
      | current_url # rest \<Rightarrow>
          if current_url \<in> visited_urls (crawler st) then st\<lparr>urls_to_visit := rest\<rparr>
          else
            let (new_links, self) = scrape_page w (crawler st) current_url;
                rest = (if truthy new_links then rest @ links_of new_links else rest)
            in \<lparr>crawler = self, urls_to_visit = rest, pages_scraped = pages_scraped st + 1\<rparr>)"

partial_function (option) scrape_loop :: "world \<Rightarrow> int \<Rightarrow> crawl \<Rightarrow> crawl option" where
  [code]: "scrape_loop w max_pages st =
     (if loop_cond max_pages st then scrape_loop w max_pages (loop_body w st) else Some st)"

text \<open>\<open>scrape_documentation\<close>; the result is the state in which the loop ends, \<open>None\<close> if
  the loop does not end.\<close>

definition scrape_documentation :: "world \<Rightarrow> scraper \<Rightarrow> int \<Rightarrow> crawl option" where
  "scrape_documentation w self max_pages =
     scrape_loop w max_pages
       \<lparr>crawler = self, urls_to_visit = [base_url self], pages_scraped = 0\<rparr>"

text \<open>A request log has no refetch when no request that obtained its page is followed by
  another request to the same URL.\<close>

fun no_refetch :: "(string \<times> bool) list \<Rightarrow> bool" where
  "no_refetch [] = True"
| "no_refetch (r # rest) = (\<not> (snd r \<and> fst r \<in> set (map fst rest)) \<and> no_refetch rest)"

text \<open>The URLs requested so far, in order.\<close>

definition requested_urls :: "crawl \<Rightarrow> string list" where
  "requested_urls st = map fst (requests (crawler st))"

text \<open>Every stored record has content.\<close>

definition nonempty_records :: "scraper \<Rightarrow> bool" where
  "nonempty_records self = list_all (\<lambda>r. content r \<noteq> []) (scraped_data self)"

text \<open>The invariant of the request log: it has no refetch, and every URL whose page was
  obtained is in the visited set.\<close>

definition log_inv :: "crawl \<Rightarrow> bool" where
  "log_inv st = (no_refetch (requests (crawler st))
     \<and> (\<forall>p\<in>set (requests (crawler st)). snd p \<longrightarrow> fst p \<in> visited_urls (crawler st)))"

section \<open>The corpus store: \<open>save_to_json\<close> (app.py) and \<open>load_docs\<close> (server.py)\<close>

subsection \<open>The values and the text that \<open>json.dump\<close> writes\<close>

text \<open>
  The corpus is a list of dictionaries whose values are strings and lists, so the Python
  values that reach the \<open>json\<close> module are strings, lists and dictionaries with string
  keys; a dictionary is the list of its items in insertion order. \<open>encode\<close> is the
  encoder with \<open>indent=2\<close> and \<open>ensure_ascii=False\<close>: an empty list or dictionary is
  written \<open>[]\<close> or \<open>{}\<close>, any other one item per line, indented two spaces per level,
  with a comma at the end of the line of every item but the last and a colon and a space
  after a key. In a string only the double quote, the backslash and the characters below
  U+0020 are escaped, these as \<open>\n\<close>, \<open>\r\<close>, \<open>\t\<close>, \<open>\b\<close>, \<open>\f\<close> or with four
  hexadecimal digits in lower case.
\<close>

datatype json = JString string | JArray "json list" | JObject "(string \<times> json) list"

definition hex_digit :: "nat \<Rightarrow> char" where
  "hex_digit d = ''0123456789abcdef'' ! d"

definition escape_char :: "char \<Rightarrow> string" where
  "escape_char c =
     (if c = CHR 0x22 then [CHR 0x5C, CHR 0x22]
      else if c = CHR 0x5C then [CHR 0x5C, CHR 0x5C]
      else if c = CHR 0x0A then [CHR 0x5C, CHR ''n'']
      else if c = CHR 0x0D then [CHR 0x5C, CHR ''r'']
      else if c = CHR 0x09 then [CHR 0x5C, CHR ''t'']
      else if c = CHR 0x08 then [CHR 0x5C, CHR ''b'']
      else if c = CHR 0x0C then [CHR 0x5C, CHR ''f'']
      else if of_char c < (32::nat)
        then [CHR 0x5C, CHR ''u'', CHR ''0'', CHR ''0'',
              hex_digit (of_char c div 16), hex_digit (of_char c mod 16)]
      else [c])"

definition encode_string :: "string \<Rightarrow> string" where
  "encode_string s = CHR 0x22 # concat (map escape_char s) @ [CHR 0x22]"

definition newline_indent :: "nat \<Rightarrow> string" where
  "newline_indent level = CHR 0x0A # replicate (2 * level) CHR '' ''"

fun encode :: "nat \<Rightarrow> json \<Rightarrow> string"
  and encode_items :: "nat \<Rightarrow> json list \<Rightarrow> string"
  and encode_members :: "nat \<Rightarrow> (string \<times> json) list \<Rightarrow> string" where
  "encode level (JString s) = encode_string s"
| "encode level (JArray []) = ''[]''"
| "encode level (JArray (x # xs)) =
     ''['' @ newline_indent (Suc level) @ encode_items (Suc level) (x # xs)
     @ newline_indent level @ '']''"
| "encode level (JObject []) = ''{}''"
| "encode level (JObject (m # ms)) =
     ''{'' @ newline_indent (Suc level) @ encode_members (Suc level) (m # ms)
     @ newline_indent level @ ''}''"
| "encode_items level [] = []"
| "encode_items level [x] = encode level x"
| "encode_items level (x # y # ys) =
     encode level x @ '','' @ newline_indent level @ encode_items level (y # ys)"
| "encode_members level [] = []"
| "encode_members level [(k, v)] = encode_string k @ '': '' @ encode level v"
| "encode_members level ((k, v) # m # ms) =
     encode_string k @ '': '' @ encode level v @ '','' @ newline_indent level
     @ encode_members level (m # ms)"

subsection \<open>The text that \<open>json.load\<close> reads\<close>
















subsection \<open>Page records as Python values\<close>

text \<open>
  \<open>corpus_to_json\<close> is \<open>scraped_data\<close> as the Python value it is: a list of
  dictionaries with the six keys in the order in which \<open>extract_content\<close> writes them.
  \<open>as_corpus\<close> reads a Python value as a list of page records when it is a list of
  dictionaries with exactly these keys and values of these types.
\<close>

definition heading_to_json :: "heading \<Rightarrow> json" where
  "heading_to_json h = JObject [(''level'', JString (h_level h)), (''text'', JString (h_text h))]"

definition record_to_json :: "page_record \<Rightarrow> json" where
  "record_to_json r =
     JObject [(''url'', JString (url r)),
              (''title'', JString (title r)),
              (''content'', JString (content r)),
              (''headings'', JArray (map heading_to_json (headings r))),
              (''code_snippets'', JArray (map JString (code_snippets r))),
              (''links'', JArray (map JString (links r)))]"

definition corpus_to_json :: "page_record list \<Rightarrow> json" where
  "corpus_to_json docs = JArray (map record_to_json docs)"






subsection \<open>The two functions\<close>


definition json_dump :: "page_record list \<Rightarrow> string" where
  "json_dump docs = encode 0 (corpus_to_json docs)"







section \<open>Example data\<close>

definition api_doc :: page_record where
  "api_doc = \<lparr>url = ''https://docs.x.com/api'', title = ''API'', content = ''Reference'',
     headings = [], code_snippets = [], links = []\<rparr>"

definition install_doc :: page_record where
  "install_doc = \<lparr>url = ''https://docs.x.com/install'', title = ''Installation Guide'',
     content = ''Run installation steps'',
     headings = [\<lparr>h_level = ''h2'', h_text = ''Steps''\<rparr>], code_snippets = [], links = []\<rparr>"

definition two_docs :: doc_bot where
  "two_docs = \<lparr>docs_file = ''capillary_docs.json'', docs_data = [api_doc, install_doc]\<rparr>"

text \<open>
  Two small webs. Their anchors are absolute URLs, which \<open>urljoin\<close> returns as they
  are, except \<open>http://[bad\<close>, on which it raises \<open>ValueError\<close>; the network location
  of the \<open>https\<close> URLs in them is what lies between \<open>https://\<close> and the next slash.
  In \<open>demo_web\<close> the home page links twice to a page that cannot be fetched, once to a
  page without a content root, once to another host and once to itself; in
  \<open>endless_web\<close> every page exists and links to two pages not seen before.
  \<open>bad_href_page\<close> has a good link and one that \<open>urljoin\<close> rejects.
\<close>

definition abs_urljoin :: "string \<Rightarrow> string \<Rightarrow> string option" where
  "abs_urljoin base href = (if href = ''http://[bad'' then None else Some href)"

definition https_netloc :: "string \<Rightarrow> string option" where
  "https_netloc u = Some (takeWhile (\<lambda>c. c \<noteq> CHR ''/'') (drop 8 u))"

definition bad_href_page :: soup where
  "bad_href_page = \<lparr>find_h1 = Some ''Links'', find_title = None,
     find_main = Some \<lparr>mc_text = ''Two links'', mc_headings = [], mc_code = []\<rparr>,
     find_article = None, find_div_content = None,
     anchors = [''https://docs.x.com/a'', ''http://[bad'']\<rparr>"

definition home_page :: soup where
  "home_page = \<lparr>find_h1 = Some ''Welcome'', find_title = Some ''Docs'',
     find_main = Some \<lparr>mc_text = ''Welcome to the documentation'',
                       mc_headings = [(''h1'', ''Welcome'')], mc_code = [''pip'', ''pip install capillary'']\<rparr>,
     find_article = None, find_div_content = None,
     anchors = [''https://docs.x.com/f'', ''https://docs.x.com/e?x=1#top'', ''https://docs.x.com/f'',
                ''https://other.com/a'', ''https://docs.x.com/#intro'']\<rparr>"

definition bare_page :: soup where
  "bare_page = \<lparr>find_h1 = None, find_title = Some ''Empty'', find_main = None,
     find_article = None, find_div_content = None, anchors = []\<rparr>"

definition demo_web :: world where
  "demo_web = \<lparr>urljoin = abs_urljoin, netloc = https_netloc,
     fetch = (\<lambda>n u. if u = ''https://docs.x.com/'' then Some home_page
                     else if u = ''https://docs.x.com/e'' then Some bare_page else None)\<rparr>"

definition endless_web :: world where
  "endless_web = \<lparr>urljoin = abs_urljoin, netloc = https_netloc,
     fetch = (\<lambda>n u. Some \<lparr>find_h1 = None, find_title = None,
        find_main = Some \<lparr>mc_text = ''page'', mc_headings = [], mc_code = []\<rparr>,
        find_article = None, find_div_content = None,
        anchors = [u @ ''a/'', u @ ''b/'']\<rparr>)\<rparr>"

definition bad_href_web :: world where
  "bad_href_web = \<lparr>urljoin = abs_urljoin, netloc = https_netloc,
     fetch = (\<lambda>n u. Some bad_href_page)\<rparr>"

definition home_scraper :: scraper where
  "home_scraper = (init_scraper ''https://docs.x.com/'')\<lparr>visited_urls := {''https://docs.x.com/''}\<rparr>"

definition failing_state :: crawl where
  "failing_state = \<lparr>crawler = init_scraper ''https://docs.x.com/'',
     urls_to_visit = [''https://docs.x.com/f'', ''https://docs.x.com/e''], pages_scraped = 0\<rparr>"

definition revisit_state :: crawl where
  "revisit_state = \<lparr>crawler = (init_scraper ''https://docs.x.com/'')\<lparr>visited_urls := {''https://docs.x.com/''}\<rparr>,
     urls_to_visit = [''https://docs.x.com/'', ''https://docs.x.com/f''], pages_scraped = 1\<rparr>"

definition fallback_doc :: page_record where
  "fallback_doc = \<lparr>url = ''https://docs.x.com/crawler'', title = ''Crawler'',
     content = ''The scraper visits every page of the site exactly once.'' @ [CHR 0x0A] @ ''Short one.'',
     headings = [], code_snippets = [], links = []\<rparr>"

text \<open>The text of the file for the corpus of the two example records.\<close>

definition two_docs_json :: string where
  \<open>two_docs_json = str_join [CHR 0x0A]
     [''['',
      ''  {'',
      ''    "url": "https://docs.x.com/api",'',
      ''    "title": "API",'',
      ''    "content": "Reference",'',
      ''    "headings": [],'',
      ''    "code_snippets": [],'',
      ''    "links": []'',
      ''  },'',
      ''  {'',
      ''    "url": "https://docs.x.com/install",'',
      ''    "title": "Installation Guide",'',
      ''    "content": "Run installation steps",'',
      ''    "headings": ['',
      ''      {'',
      ''        "level": "h2",'',
      ''        "text": "Steps"'',
      ''      }'',
      ''    ],'',
      ''    "code_snippets": [],'',
      ''    "links": []'',
      ''  }'',
      '']'']\<close>

section \<open>Properties of the search\<close>

subsection \<open>The loops of \<open>search_docs\<close> in closed form\<close>

lemma fold_title: "fold (\<lambda>term score. if P term then score + (k::int) else score) ts s
   = s + k * int (length (filter P ts))"
  by (induction ts arbitrary: s) (auto simp: algebra_simps)

lemma fold_count: "fold (\<lambda>term score. if Q term then score + int (f term) * 2 else score) ts (s::int)
   = s + 2 * sum_list (map (\<lambda>t. int (f t)) (filter Q ts))"
  by (induction ts arbitrary: s) (auto simp: algebra_simps)

lemma heading_score_eq: "heading_score ql qt h s =
   s + (if contains ql (str_lower (h_text h)) then 8 else 0)
     + 3 * int (length (filter (\<lambda>t. contains t (str_lower (h_text h))) qt))"
  by (simp add: heading_score_def Let_def fold_title)

lemma fold_heading: "fold (heading_score ql qt) hs s =
   s + (\<Sum>h\<leftarrow>hs. (if contains ql (str_lower (h_text h)) then 8 else 0)
     + 3 * int (length (filter (\<lambda>t. contains t (str_lower (h_text h))) qt)))"
  by (induction hs arbitrary: s) (simp_all add: heading_score_eq algebra_simps)

lemma doc_score_eq: "doc_score ql qt d =
    15 * int (length (filter (\<lambda>t. contains t (str_lower (title d))) qt))
  + (if contains ql (str_lower (title d)) then 20 else 0)
  + (if contains ql (str_lower (content d)) then 10 else 0)
  + 2 * (\<Sum>t\<leftarrow>filter (\<lambda>t. length t > 2) qt. int (str_count (str_lower (content d)) t))
  + (\<Sum>h\<leftarrow>headings d. (if contains ql (str_lower (h_text h)) then 8 else 0)
     + 3 * int (length (filter (\<lambda>t. contains t (str_lower (h_text h))) qt)))"
  by (simp add: doc_score_def Let_def fold_title fold_count fold_heading)

lemma doc_score_nonneg: "0 \<le> doc_score ql qt d"
  unfolding doc_score_eq by (intro add_nonneg_nonneg mult_nonneg_nonneg sum_list_nonneg) auto

lemma results_loop:
  "fold (\<lambda>doc results.
           if 0 < doc_score ql qt doc
           then results @ [\<lparr>hit_doc = doc, hit_score = doc_score ql qt doc\<rparr>]
           else results)
        docs acc
   = acc @ map (\<lambda>d. \<lparr>hit_doc = d, hit_score = doc_score ql qt d\<rparr>)
             (filter (\<lambda>d. 0 < doc_score ql qt d) docs)"
  by (induction docs arbitrary: acc) simp_all

lemma insort_key_map: "insort_key f (g x) (map g xs) = map g (insort_key (\<lambda>a. f (g a)) x xs)"
  by (induction xs) simp_all

lemma sort_key_map: "sort_key f (map g xs) = map g (sort_key (\<lambda>a. f (g a)) xs)"
  by (induction xs) (simp_all add: insort_key_map)

lemma sort_reverse_map: "sort_reverse f (map g xs) = map g (sort_reverse (\<lambda>a. f (g a)) xs)"
  by (simp add: sort_reverse_def rev_map sort_key_map)

lemma slice_to_map: "slice_to (map g xs) n = map g (slice_to xs n)"
  by (simp add: slice_to_def take_map)

lemma search_docs_eq:
  "search_docs self q n =
     slice_to (sort_reverse (score_of q) (filter (\<lambda>d. 0 < score_of q d) (docs_data self))) n"
  unfolding search_docs_def Let_def results_loop score_of_def
  by (simp add: sort_reverse_map slice_to_map comp_def)

lemma sort_reverse_stable:
  "filter (\<lambda>y. f y = k) (sort_reverse f xs) = filter (\<lambda>y. f y = k) xs"
  by (simp add: sort_reverse_def rev_filter [symmetric] sort_key_stable)

lemma sort_reverse_sorted: "sorted_wrt (\<lambda>a b. f b \<le> f a) (sort_reverse f xs)"
proof -
  have "sorted (map f (sort_key f (rev xs)))" by simp
  then have "sorted_wrt (\<lambda>a b. f a \<le> f b) (sort_key f (rev xs))"
    by (simp add: sorted_map)
  then show ?thesis by (simp add: sort_reverse_def sorted_wrt_rev)
qed

lemma set_sort_reverse: "set (sort_reverse f xs) = set xs"
  by (simp add: sort_reverse_def)

lemma length_sort_reverse: "length (sort_reverse f xs) = length xs"
  by (simp add: sort_reverse_def)

lemma slice_to_take: "\<exists>m. slice_to xs n = take m xs"
  by (auto simp: slice_to_def)

lemma set_slice_to: "set (slice_to xs n) \<subseteq> set xs"
  using slice_to_take [of xs n] by (auto dest: in_set_takeD)

text \<open>\<open>contains\<close> is the substring relation of the library.\<close>

lemma contains_iff_sublist: "contains needle hay \<longleftrightarrow> sublist needle hay"
  by (induction hay) (auto simp: sublist_Cons_right)

lemma contains_Nil [simp]: "contains [] s"
  by (cases s) simp_all

lemma empty_query_score: "score_of [] doc = 30 + 8 * int (length (headings doc))"
proof -
  have "(\<Sum>h\<leftarrow>hs. (8::int)) = 8 * int (length hs)" for hs :: "heading list"
    by (induction hs) simp_all
  then show ?thesis
    by (simp add: score_of_def doc_score_eq str_lower_def str_split_def)
qed

subsection \<open>The score formula\<close>

text \<open>
  C1, as the specification states it, fails: for the query \<open>api api\<close> and a page titled
  \<open>API\<close> the code adds 15 for each of the two query terms, 30 in all, where the
  specification's formula counts the distinct term once and gives 15.
\<close>

theorem search_score_counterexample:
  "score_of ''api api'' api_doc = 30 \<and> spec_score ''api api'' api_doc = 15"
  by code_simp

text \<open>
  C1, amended: the score of a document is 15 for every query term (repeated terms counted
  each time) that is a substring of the title, plus 20 if the whole query is a substring
  of the title, plus 10 if it is a substring of the content, plus twice the number of
  occurrences in the content of every query term longer than 2, plus 8 for every heading
  that contains the whole query, plus 3 for every query term and heading such that the
  heading contains the term, all on lower-cased text; and a document whose score is 0 is in
  no search result.
\<close>

theorem search_score_formula:
  "score_of query doc =
     (let q = str_lower query; terms = str_split q;
          t = str_lower (title doc); c = str_lower (content doc)
      in 15 * int (length (filter (\<lambda>term. contains term t) terms))
       + (if contains q t then 20 else 0)
       + (if contains q c then 10 else 0)
       + 2 * (\<Sum>term\<leftarrow>filter (\<lambda>term. 2 < length term) terms. int (str_count c term))
       + (\<Sum>h\<leftarrow>headings doc. if contains q (str_lower (h_text h)) then 8 else 0)
       + (\<Sum>h\<leftarrow>headings doc.
            3 * int (length (filter (\<lambda>term. contains term (str_lower (h_text h))) terms))))
   \<and> (score_of query doc = 0 \<longrightarrow> doc \<notin> set (search_docs self query max_results))"
proof
  show "score_of query doc =
     (let q = str_lower query; terms = str_split q;
          t = str_lower (title doc); c = str_lower (content doc)
      in 15 * int (length (filter (\<lambda>term. contains term t) terms))
       + (if contains q t then 20 else 0)
       + (if contains q c then 10 else 0)
       + 2 * (\<Sum>term\<leftarrow>filter (\<lambda>term. 2 < length term) terms. int (str_count c term))
       + (\<Sum>h\<leftarrow>headings doc. if contains q (str_lower (h_text h)) then 8 else 0)
       + (\<Sum>h\<leftarrow>headings doc.
            3 * int (length (filter (\<lambda>term. contains term (str_lower (h_text h))) terms))))"
    by (simp add: score_of_def doc_score_eq Let_def sum_list_addf)
  have "set (search_docs self query max_results) \<subseteq> {d. 0 < score_of query d}"
    using set_slice_to [of "sort_reverse (score_of query)
        (filter (\<lambda>d. 0 < score_of query d) (docs_data self))" max_results]
    by (auto simp: search_docs_eq set_sort_reverse)
  then show "score_of query doc = 0 \<longrightarrow> doc \<notin> set (search_docs self query max_results)"
    by auto
qed

theorem search_score_formula_witness:
  "score_of ''installation'' api_doc = 0
   \<and> api_doc \<notin> set (search_docs two_docs ''installation'' 3)"
proof -
  have h: "score_of ''installation'' api_doc = 0" by code_simp
  from search_score_formula [of "''installation''" api_doc two_docs 3] h show ?thesis by blast
qed

subsection \<open>Ranking\<close>

text \<open>
  C2: for a non-negative \<open>max_results\<close>, \<open>search_docs\<close> returns at most \<open>max_results\<close>
  records, in descending order of score, and for every score the returned records with
  that score are an initial part of the corpus records with that score, in corpus order.
\<close>

theorem search_docs_ranked:
  "0 \<le> max_results \<Longrightarrow>
     length (search_docs self query max_results) \<le> nat max_results
   \<and> sorted_wrt (\<lambda>a b. score_of query b \<le> score_of query a) (search_docs self query max_results)
   \<and> (\<forall>k. prefix (filter (\<lambda>d. score_of query d = k) (search_docs self query max_results))
                   (filter (\<lambda>d. score_of query d = k) (docs_data self)))"
proof (intro conjI allI)
  let ?pos = "filter (\<lambda>d. 0 < score_of query d) (docs_data self)"
  let ?srt = "sort_reverse (score_of query) ?pos"
  obtain m where m: "search_docs self query max_results = take m ?srt"
    using slice_to_take [of ?srt max_results] by (auto simp: search_docs_eq)
  assume "0 \<le> max_results"
  then show "length (search_docs self query max_results) \<le> nat max_results"
    by (simp add: search_docs_eq slice_to_def)
  show "sorted_wrt (\<lambda>a b. score_of query b \<le> score_of query a) (search_docs self query max_results)"
    unfolding m by (rule sorted_wrt_take) (rule sort_reverse_sorted)
  fix k
  have "prefix (filter (\<lambda>d. score_of query d = k) (take m ?srt))
               (filter (\<lambda>d. score_of query d = k) ?srt)"
    by (intro filter_mono_prefix take_is_prefix)
  also have "filter (\<lambda>d. score_of query d = k) ?srt = filter (\<lambda>d. score_of query d = k) ?pos"
    by (rule sort_reverse_stable)
  also have "prefix \<dots> (filter (\<lambda>d. score_of query d = k) (docs_data self))"
  proof (cases "0 < k")
    case True
    then have "filter (\<lambda>d. score_of query d = k) ?pos = filter (\<lambda>d. score_of query d = k) (docs_data self)"
      by (auto intro: filter_cong)
    then show ?thesis by simp
  next
    case False
    then have "filter (\<lambda>d. score_of query d = k) ?pos = []"
      by (auto simp: filter_empty_conv)
    then show ?thesis by simp
  qed
  finally show "prefix (filter (\<lambda>d. score_of query d = k) (search_docs self query max_results))
                   (filter (\<lambda>d. score_of query d = k) (docs_data self))"
    unfolding m .
qed

theorem search_docs_ranked_witness:
  "(0::int) \<le> 3 \<and> length (search_docs two_docs ''guide api'' 3) \<le> nat 3
   \<and> sorted_wrt (\<lambda>a b. score_of ''guide api'' b \<le> score_of ''guide api'' a)
         (search_docs two_docs ''guide api'' 3)
   \<and> (\<forall>k. prefix (filter (\<lambda>d. score_of ''guide api'' d = k) (search_docs two_docs ''guide api'' 3))
                   (filter (\<lambda>d. score_of ''guide api'' d = k) (docs_data two_docs)))"
proof -
  have h: "(0::int) \<le> 3" by simp
  from search_docs_ranked [OF h, of two_docs "''guide api''"] h show ?thesis by blast
qed

subsection \<open>The empty query\<close>

text \<open>
  C10: for the empty query every record scores 30 plus 8 for each of its headings, so at
  least 30; no record is excluded: the result is the slice of the whole corpus sorted by
  score, of length \<open>min max_results (length corpus)\<close> for a non-negative \<open>max_results\<close>,
  and records of equal score are in corpus order.
\<close>

theorem empty_query_search:
  "30 \<le> score_of '''' doc
   \<and> score_of '''' doc = 30 + 8 * int (length (headings doc))
   \<and> search_docs self '''' max_results
       = slice_to (sort_reverse (score_of '''') (docs_data self)) max_results
   \<and> (0 \<le> max_results \<longrightarrow>
        length (search_docs self '''' max_results) = min (nat max_results) (length (docs_data self)))
   \<and> (\<forall>k. prefix (filter (\<lambda>d. score_of '''' d = k) (search_docs self '''' max_results))
                   (filter (\<lambda>d. score_of '''' d = k) (docs_data self)))"
proof -
  have pos: "filter (\<lambda>d. 0 < score_of '''' d) ds = ds" for ds
    by (simp add: empty_query_score)
  have eq: "search_docs self '''' max_results
       = slice_to (sort_reverse (score_of '''') (docs_data self)) max_results"
    by (simp only: search_docs_eq pos)
  have pre: "prefix (filter (\<lambda>d. score_of '''' d = k) (search_docs self '''' max_results))
                   (filter (\<lambda>d. score_of '''' d = k) (docs_data self))" for k
  proof -
    obtain m where "search_docs self '''' max_results = take m (sort_reverse (score_of '''') (docs_data self))"
      using slice_to_take eq by metis
    then have "prefix (filter (\<lambda>d. score_of '''' d = k) (search_docs self '''' max_results))
      (filter (\<lambda>d. score_of '''' d = k) (sort_reverse (score_of '''') (docs_data self)))"
      by (simp add: filter_mono_prefix take_is_prefix)
    then show ?thesis by (simp only: sort_reverse_stable)
  qed
  show ?thesis
    using pre by (simp add: empty_query_score eq slice_to_def length_sort_reverse min.commute)
qed

theorem empty_query_search_witness:
  "(0::int) \<le> 1
   \<and> length (search_docs two_docs [] 1) = min (nat 1) (length (docs_data two_docs))"
proof -
  have h: "(0::int) \<le> 1" by simp
  from empty_query_search [of install_doc two_docs 1] h show ?thesis by blast
qed

section \<open>Properties of the crawler\<close>

subsection \<open>One iteration, and the rule for the whole loop\<close>

lemma scrape_page_unvisited:
  "page_url \<notin> visited_urls self \<Longrightarrow>
   snd (scrape_page w self page_url) =
     (case fetch w (length (requests self)) page_url of
        None \<Rightarrow> self\<lparr>requests := requests self @ [(page_url, False)]\<rparr>
      | Some sp \<Rightarrow>
          self\<lparr>requests := requests self @ [(page_url, True)],
               scraped_data := (if content (extract_content sp page_url) \<noteq> []
                  then scraped_data self @ [extract_content sp page_url]
                  else scraped_data self),
               visited_urls := insert page_url (visited_urls self)\<rparr>)"
  by (simp add: scrape_page_def Let_def split: option.splits sum.splits)

lemma loop_body_visited:
  "urls_to_visit st = u # rest \<Longrightarrow> u \<in> visited_urls (crawler st) \<Longrightarrow>
   loop_body w st = st\<lparr>urls_to_visit := rest\<rparr>"
  by (simp add: loop_body_def)

lemma loop_body_unvisited:
  "urls_to_visit st = u # rest \<Longrightarrow> u \<notin> visited_urls (crawler st) \<Longrightarrow>
   loop_body w st =
     \<lparr>crawler = snd (scrape_page w (crawler st) u),
      urls_to_visit = rest @ links_of (fst (scrape_page w (crawler st) u)),
      pages_scraped = pages_scraped st + 1\<rparr>"
  by (cases "fst (scrape_page w (crawler st) u)")
     (auto simp: loop_body_def Let_def split: prod.splits)

lemma loop_body_decreases:
  assumes "loop_cond m st"
  shows "(loop_body w st, st)
     \<in> measures [\<lambda>s. nat (m - pages_scraped s), \<lambda>s. length (urls_to_visit s)]"
proof -
  from assms obtain u rest where u: "urls_to_visit st = u # rest" and lt: "pages_scraped st < m"
    by (auto simp: loop_cond_def neq_Nil_conv)
  show ?thesis
  proof (cases "u \<in> visited_urls (crawler st)")
    case True
    with u show ?thesis by (simp add: loop_body_visited)
  next
    case False
    with u lt show ?thesis by (simp add: loop_body_unvisited)
  qed
qed

lemma scrape_loop_rule:
  assumes init: "I st" and step: "\<And>s. I s \<Longrightarrow> loop_cond m s \<Longrightarrow> I (loop_body w s)"
  shows "\<exists>st'. scrape_loop w m st = Some st' \<and> I st' \<and> \<not> loop_cond m st'"
proof -
  have "wf (measures [\<lambda>s. nat (m - pages_scraped s), \<lambda>s. length (urls_to_visit s)])"
    by simp
  then show ?thesis
    using init
  proof (induction st rule: wf_induct_rule)
    case (less st)
    show ?case
    proof (cases "loop_cond m st")
      case True
      then have "\<exists>st'. scrape_loop w m (loop_body w st) = Some st' \<and> I st' \<and> \<not> loop_cond m st'"
        using less.IH [OF loop_body_decreases] step less.prems by blast
      with True show ?thesis by (subst scrape_loop.simps) simp
    next
      case False
      with less.prems show ?thesis by (subst scrape_loop.simps) simp
    qed
  qed
qed

lemma scrape_page_failure:
  "u \<notin> visited_urls self \<Longrightarrow> fetch w (length (requests self)) u = None \<Longrightarrow>
   scrape_page w self u = (ReturnLinks [], self\<lparr>requests := requests self @ [(u, False)]\<rparr>)"
  by (simp add: scrape_page_def)

lemma scrape_doc_rule:
  assumes "I \<lparr>crawler = self, urls_to_visit = [base_url self], pages_scraped = 0\<rparr>"
    and "\<And>s. I s \<Longrightarrow> loop_cond m s \<Longrightarrow> I (loop_body w s)"
  shows "\<exists>st'. scrape_documentation w self m = Some st' \<and> I st' \<and> \<not> loop_cond m st'"
  unfolding scrape_documentation_def using assms by (rule scrape_loop_rule)

subsection \<open>A failed fetch\<close>

text \<open>
  C3: in an iteration whose fetch fails (the dequeued URL is not visited and the request
  gives no page), the URL is not added to the visited set, the records are unchanged, no
  link is enqueued (the frontier is the rest of the queue), the counter is incremented by
  one, and the loop goes on from the resulting state and ends normally.
\<close>

theorem fetch_failure_absorbed:
  assumes "urls_to_visit st = u # rest" and "pages_scraped st < max_pages"
    and "u \<notin> visited_urls (crawler st)"
    and "fetch w (length (requests (crawler st))) u = None"
  shows "u \<notin> visited_urls (crawler (loop_body w st))
     \<and> visited_urls (crawler (loop_body w st)) = visited_urls (crawler st)
     \<and> scraped_data (crawler (loop_body w st)) = scraped_data (crawler st)
     \<and> urls_to_visit (loop_body w st) = rest
     \<and> pages_scraped (loop_body w st) = pages_scraped st + 1
     \<and> scrape_loop w max_pages st = scrape_loop w max_pages (loop_body w st)
     \<and> (\<exists>st'. scrape_loop w max_pages st = Some st')"
proof -
  have body: "loop_body w st =
      \<lparr>crawler = (crawler st)\<lparr>requests := requests (crawler st) @ [(u, False)]\<rparr>,
       urls_to_visit = rest, pages_scraped = pages_scraped st + 1\<rparr>"
    using assms by (simp add: loop_body_unvisited scrape_page_failure)
  have "loop_cond max_pages st"
    using assms by (simp add: loop_cond_def)
  then have continues: "scrape_loop w max_pages st = scrape_loop w max_pages (loop_body w st)"
    by (subst scrape_loop.simps) simp
  have "\<exists>st'. scrape_loop w max_pages st = Some st' \<and> True \<and> \<not> loop_cond max_pages st'"
    by (rule scrape_loop_rule) simp_all
  with body continues assms(3) show ?thesis by auto
qed

theorem fetch_failure_absorbed_witness:
  "urls_to_visit failing_state = ''https://docs.x.com/f'' # [''https://docs.x.com/e'']
   \<and> pages_scraped failing_state < 10
   \<and> ''https://docs.x.com/f'' \<notin> visited_urls (crawler failing_state)
   \<and> fetch demo_web (length (requests (crawler failing_state))) ''https://docs.x.com/f'' = None
   \<and> scraped_data (crawler (loop_body demo_web failing_state)) = scraped_data (crawler failing_state)
   \<and> urls_to_visit (loop_body demo_web failing_state) = [''https://docs.x.com/e'']
   \<and> pages_scraped (loop_body demo_web failing_state) = pages_scraped failing_state + 1
   \<and> (\<exists>st'. scrape_loop demo_web 10 failing_state = Some st')"
proof -
  have h1: "urls_to_visit failing_state = ''https://docs.x.com/f'' # [''https://docs.x.com/e'']"
    by (simp add: failing_state_def)
  have h2: "pages_scraped failing_state < 10"
    by (simp add: failing_state_def)
  have h3: "''https://docs.x.com/f'' \<notin> visited_urls (crawler failing_state)"
    by (simp add: failing_state_def init_scraper_def)
  have h4: "fetch demo_web (length (requests (crawler failing_state))) ''https://docs.x.com/f'' = None"
    by (simp add: demo_web_def)
  from fetch_failure_absorbed [OF h1 h2 h3 h4] h1 h2 h3 h4 show ?thesis by blast
qed

subsection \<open>Visited URLs\<close>

lemma no_refetch_snoc:
  "no_refetch (log @ [r]) = (no_refetch log \<and> (\<forall>p\<in>set log. snd p \<longrightarrow> fst p \<noteq> fst r))"
  by (induction log) auto

lemma log_inv_step:
  assumes "log_inv st" and "loop_cond m st"
  shows "log_inv (loop_body w st)"
proof -
  from assms(2) obtain u rest where u: "urls_to_visit st = u # rest"
    by (auto simp: loop_cond_def neq_Nil_conv)
  show ?thesis
  proof (cases "u \<in> visited_urls (crawler st)")
    case True
    with u assms(1) show ?thesis by (simp add: loop_body_visited log_inv_def)
  next
    case False
    with u assms(1) show ?thesis
      by (auto simp: loop_body_unvisited scrape_page_unvisited log_inv_def no_refetch_snoc
          split: option.splits)
  qed
qed

text \<open>
  C4, as stated, fails in its second half: a URL whose fetch fails is not marked visited,
  so it is requested again when it is dequeued again. In \<open>demo_web\<close> the page \<open>f\<close> is
  requested twice.
\<close>

theorem failed_url_refetched:
  "map_option requested_urls (scrape_documentation demo_web (init_scraper ''https://docs.x.com/'') 10)
   = Some [''https://docs.x.com/'', ''https://docs.x.com/f'', ''https://docs.x.com/e'',
           ''https://docs.x.com/f'']"
  by code_simp

text \<open>
  C4, amended: dequeuing a URL that is in the visited set changes nothing but the
  frontier: no request, no record, no link enqueued, the counter as it was; and in the
  log of a crawl no request that obtained its page is followed by another request to the
  same URL.
\<close>

theorem visited_never_refetched:
  "(urls_to_visit st = u # rest \<and> u \<in> visited_urls (crawler st) \<longrightarrow>
      crawler (loop_body w st) = crawler st
      \<and> urls_to_visit (loop_body w st) = rest
      \<and> pages_scraped (loop_body w st) = pages_scraped st)
   \<and> (requests self = [] \<longrightarrow>
        (\<exists>st'. scrape_documentation w self max_pages = Some st'
              \<and> no_refetch (requests (crawler st'))))"
proof (intro conjI impI)
  assume "urls_to_visit st = u # rest \<and> u \<in> visited_urls (crawler st)"
  then have "loop_body w st = st\<lparr>urls_to_visit := rest\<rparr>"
    by (simp add: loop_body_visited)
  then show "crawler (loop_body w st) = crawler st" "urls_to_visit (loop_body w st) = rest"
    "pages_scraped (loop_body w st) = pages_scraped st"
    by simp_all
next
  assume "requests self = []"
  then have "log_inv \<lparr>crawler = self, urls_to_visit = [base_url self], pages_scraped = 0\<rparr>"
    by (simp add: log_inv_def)
  then have "\<exists>st'. scrape_documentation w self max_pages = Some st' \<and> log_inv st'
      \<and> \<not> loop_cond max_pages st'"
    by (rule scrape_doc_rule) (rule log_inv_step)
  then show "\<exists>st'. scrape_documentation w self max_pages = Some st'
              \<and> no_refetch (requests (crawler st'))"
    by (auto simp: log_inv_def)
qed

theorem visited_never_refetched_witness:
  "urls_to_visit revisit_state = ''https://docs.x.com/'' # [''https://docs.x.com/f'']
   \<and> ''https://docs.x.com/'' \<in> visited_urls (crawler revisit_state)
   \<and> crawler (loop_body demo_web revisit_state) = crawler revisit_state
   \<and> urls_to_visit (loop_body demo_web revisit_state) = [''https://docs.x.com/f'']
   \<and> pages_scraped (loop_body demo_web revisit_state) = pages_scraped revisit_state
   \<and> requests (init_scraper ''https://docs.x.com/'') = []
   \<and> (\<exists>st'. scrape_documentation demo_web (init_scraper ''https://docs.x.com/'') 10 = Some st'
           \<and> no_refetch (requests (crawler st')))"
proof -
  have h1: "urls_to_visit revisit_state = ''https://docs.x.com/'' # [''https://docs.x.com/f'']
      \<and> ''https://docs.x.com/'' \<in> visited_urls (crawler revisit_state)"
    by (simp add: revisit_state_def)
  have h2: "requests (init_scraper ''https://docs.x.com/'') = []"
    by (simp add: init_scraper_def)
  from visited_never_refetched [of revisit_state "''https://docs.x.com/''"
      "[''https://docs.x.com/f'']" demo_web "init_scraper ''https://docs.x.com/''" 10] h1 h2
  show ?thesis by blast
qed

subsection \<open>Termination and the page budget\<close>

lemma pages_scraped_step:
  assumes "pages_scraped st \<le> max 0 m" and "loop_cond m st"
  shows "pages_scraped (loop_body w st) \<le> max 0 m"
proof -
  from assms(2) obtain u rest where u: "urls_to_visit st = u # rest" and lt: "pages_scraped st < m"
    by (auto simp: loop_cond_def neq_Nil_conv)
  show ?thesis
  proof (cases "u \<in> visited_urls (crawler st)")
    case True
    with u assms(1) show ?thesis by (simp add: loop_body_visited)
  next
    case False
    with u lt show ?thesis by (simp add: loop_body_unvisited)
  qed
qed

text \<open>The counter counts the requests: every iteration that increments it makes exactly
  one request.\<close>

lemma budget_counts_requests_step:
  assumes "pages_scraped st = int (length (requests (crawler st)))"
  shows "pages_scraped (loop_body w st) = int (length (requests (crawler (loop_body w st))))"
proof (cases "urls_to_visit st")
  case Nil
  with assms show ?thesis by (simp add: loop_body_def)
next
  case (Cons u rest)
  show ?thesis
  proof (cases "u \<in> visited_urls (crawler st)")
    case True
    with Cons assms show ?thesis by (simp add: loop_body_visited)
  next
    case False
    with Cons assms show ?thesis
      by (auto simp: loop_body_unvisited scrape_page_unvisited split: option.splits)
  qed
qed

lemma budget_counts_requests:
  assumes "requests self = []"
  shows "\<exists>st'. scrape_documentation w self max_pages = Some st'
           \<and> pages_scraped st' = int (length (requests (crawler st')))"
proof -
  have "\<exists>st'. scrape_documentation w self max_pages = Some st'
      \<and> pages_scraped st' = int (length (requests (crawler st'))) \<and> \<not> loop_cond max_pages st'"
    by (rule scrape_doc_rule) (simp_all add: assms budget_counts_requests_step)
  then show ?thesis by blast
qed

text \<open>
  C5: for every web, scraper and \<open>max_pages\<close> the loop of \<open>scrape_documentation\<close> ends
  (a page has a list of anchors, so finitely many links). It ends with the frontier empty
  or the budget used; the counter, which starts at 0 and only ever grows by one, never
  exceeds a non-negative \<open>max_pages\<close>, and equals it when URLs remain in the frontier.
\<close>

theorem crawl_terminates_within_budget:
  "\<exists>st'. scrape_documentation w self max_pages = Some st'
        \<and> (urls_to_visit st' = [] \<or> max_pages \<le> pages_scraped st')
        \<and> (0 \<le> max_pages \<longrightarrow> pages_scraped st' \<le> max_pages)
        \<and> (0 \<le> max_pages \<and> urls_to_visit st' \<noteq> [] \<longrightarrow> pages_scraped st' = max_pages)"
proof -
  have "\<exists>st'. scrape_documentation w self max_pages = Some st'
      \<and> pages_scraped st' \<le> max 0 max_pages \<and> \<not> loop_cond max_pages st'"
    by (rule scrape_doc_rule) (simp_all add: pages_scraped_step)
  then show ?thesis
    by (fastforce simp: loop_cond_def)
qed

theorem crawl_terminates_within_budget_witness:
  "(0::int) \<le> 5
   \<and> (\<exists>st'. scrape_documentation endless_web (init_scraper ''https://docs.x.com/'') 5 = Some st'
         \<and> urls_to_visit st' \<noteq> [] \<and> pages_scraped st' = 5)"
proof -
  have run: "map_option (\<lambda>st. length (urls_to_visit st))
      (scrape_documentation endless_web (init_scraper ''https://docs.x.com/'') 5) = Some 6"
    by code_simp
  from crawl_terminates_within_budget [of endless_web "init_scraper ''https://docs.x.com/''" 5]
  obtain st' where st': "scrape_documentation endless_web (init_scraper ''https://docs.x.com/'') 5 = Some st'"
    and eq: "0 \<le> (5::int) \<and> urls_to_visit st' \<noteq> [] \<longrightarrow> pages_scraped st' = 5"
    by blast
  from run st' have "urls_to_visit st' \<noteq> []" by auto
  with st' eq show ?thesis by simp
qed

subsection \<open>Records have content\<close>

lemma nonempty_records_step:
  assumes "nonempty_records (crawler st)"
  shows "nonempty_records (crawler (loop_body w st))"
proof (cases "urls_to_visit st")
  case Nil
  with assms show ?thesis by (simp add: loop_body_def)
next
  case (Cons u rest)
  show ?thesis
  proof (cases "u \<in> visited_urls (crawler st)")
    case True
    with Cons assms show ?thesis by (simp add: loop_body_visited)
  next
    case False
    with Cons assms show ?thesis
      by (auto simp: loop_body_unvisited scrape_page_unvisited nonempty_records_def
          split: option.splits)
  qed
qed

text \<open>
  C7: a fetched page whose extracted content is empty is not appended to the records;
  that every record has content is preserved by every iteration of the loop, and holds
  when the crawl ends if it held when the crawl began.
\<close>

theorem empty_content_never_stored:
  "(page_url \<notin> visited_urls self \<and> fetch w (length (requests self)) page_url = Some sp
      \<and> content (extract_content sp page_url) = [] \<longrightarrow>
        scraped_data (snd (scrape_page w self page_url)) = scraped_data self)
   \<and> (nonempty_records (crawler st) \<longrightarrow> nonempty_records (crawler (loop_body w st)))
   \<and> (nonempty_records self \<longrightarrow>
        (\<exists>st'. scrape_documentation w self max_pages = Some st'
              \<and> nonempty_records (crawler st')))"
proof (intro conjI impI)
  assume "page_url \<notin> visited_urls self \<and> fetch w (length (requests self)) page_url = Some sp
      \<and> content (extract_content sp page_url) = []"
  then show "scraped_data (snd (scrape_page w self page_url)) = scraped_data self"
    by (simp add: scrape_page_unvisited)
next
  assume "nonempty_records (crawler st)"
  then show "nonempty_records (crawler (loop_body w st))"
    by (rule nonempty_records_step)
next
  assume "nonempty_records self"
  then have "\<exists>st'. scrape_documentation w self max_pages = Some st'
      \<and> nonempty_records (crawler st') \<and> \<not> loop_cond max_pages st'"
    by (intro scrape_doc_rule [where I = "\<lambda>s. nonempty_records (crawler s)"])
       (simp_all add: nonempty_records_step)
  then show "\<exists>st'. scrape_documentation w self max_pages = Some st'
              \<and> nonempty_records (crawler st')"
    by blast
qed

theorem empty_content_never_stored_witness:
  "''https://docs.x.com/e'' \<notin> visited_urls (init_scraper ''https://docs.x.com/'')
   \<and> fetch demo_web (length (requests (init_scraper ''https://docs.x.com/''))) ''https://docs.x.com/e''
       = Some bare_page
   \<and> content (extract_content bare_page ''https://docs.x.com/e'') = []
   \<and> scraped_data (snd (scrape_page demo_web (init_scraper ''https://docs.x.com/'') ''https://docs.x.com/e''))
       = scraped_data (init_scraper ''https://docs.x.com/'')
   \<and> nonempty_records (crawler failing_state)
   \<and> nonempty_records (crawler (loop_body demo_web failing_state))
   \<and> nonempty_records (init_scraper ''https://docs.x.com/'')
   \<and> (\<exists>st'. scrape_documentation demo_web (init_scraper ''https://docs.x.com/'') 10 = Some st'
           \<and> nonempty_records (crawler st'))"
proof -
  have h1: "''https://docs.x.com/e'' \<notin> visited_urls (init_scraper ''https://docs.x.com/'')
     \<and> fetch demo_web (length (requests (init_scraper ''https://docs.x.com/''))) ''https://docs.x.com/e''
         = Some bare_page
     \<and> content (extract_content bare_page ''https://docs.x.com/e'') = []"
    by (simp add: init_scraper_def demo_web_def extract_content_def bare_page_def py_or_def)
  have h2: "nonempty_records (crawler failing_state)"
    by (simp add: failing_state_def init_scraper_def nonempty_records_def)
  have h3: "nonempty_records (init_scraper ''https://docs.x.com/'')"
    by (simp add: init_scraper_def nonempty_records_def)
  from empty_content_never_stored [of "''https://docs.x.com/e''" "init_scraper ''https://docs.x.com/''"
      demo_web bare_page failing_state 10] h1 h2 h3
  show ?thesis by blast
qed

subsection \<open>The link extractor\<close>

lemma split_on_not_Nil: "split_on sep s \<noteq> []"
  by (induction s) (auto split: list.splits)

lemma hd_split_on: "hd (split_on sep s) = takeWhile (\<lambda>c. c \<noteq> sep) s"
  by (induction s) (auto simp: split_on_not_Nil split: list.splits)

text \<open>\<open>split_on\<close> cuts at every separator and nowhere else.\<close>

lemma split_on_pieces: "piece \<in> set (split_on sep s) \<Longrightarrow> sep \<notin> set piece"
  by (induction s arbitrary: piece) (auto split: if_splits list.splits)

lemma join_split_on: "str_join [sep] (split_on sep s) = s"
proof (induction s)
  case Nil
  show ?case by simp
next
  case (Cons c cs)
  obtain w ws where ws: "split_on sep cs = w # ws"
    using split_on_not_Nil [of sep cs] by (cases "split_on sep cs") auto
  with Cons show ?case by (cases ws) auto
qed

lemma clean_url_takeWhile:
  "clean_url u = takeWhile (\<lambda>c. c \<noteq> CHR ''?'') (takeWhile (\<lambda>c. c \<noteq> CHR ''#'') u)"
  by (simp add: clean_url_def hd_split_on)

lemma get_links_loop_resolved:
  assumes "\<forall>href\<in>set hrefs. \<exists>a n b. urljoin w cur href = Some a
             \<and> netloc w (clean_url a) = Some n \<and> netloc w (base_url self) = Some b"
  shows "get_links_loop w self cur hrefs acc =
     Inr (acc @ filter (\<lambda>u. netloc w u = netloc w (base_url self) \<and> u \<notin> visited_urls self)
                  (map clean_url (List.map_filter (urljoin w cur) hrefs)))"
  using assms
proof (induction hrefs arbitrary: acc)
  case Nil
  show ?case by (simp add: map_filter_simps)
next
  case (Cons href hrefs)
  from Cons.prems obtain a n b where a: "urljoin w cur href = Some a"
    and n: "netloc w (clean_url a) = Some n" and b: "netloc w (base_url self) = Some b"
    by auto
  from Cons.prems have rest: "\<forall>href\<in>set hrefs. \<exists>a n b. urljoin w cur href = Some a
      \<and> netloc w (clean_url a) = Some n \<and> netloc w (base_url self) = Some b"
    by simp
  show ?case
    by (simp add: a n b is_valid_url_def Let_def map_filter_simps Cons.IH [OF rest])
qed

lemma get_links_loop_raises:
  assumes "\<not> (\<forall>href\<in>set hrefs. \<exists>a n b. urljoin w cur href = Some a
             \<and> netloc w (clean_url a) = Some n \<and> netloc w (base_url self) = Some b)"
  shows "get_links_loop w self cur hrefs acc = Inl ValueError"
  using assms
proof (induction hrefs arbitrary: acc)
  case Nil
  then show ?case by simp
next
  case (Cons href hrefs)
  show ?case
  proof (cases "\<exists>a n b. urljoin w cur href = Some a
             \<and> netloc w (clean_url a) = Some n \<and> netloc w (base_url self) = Some b")
    case True
    then obtain a n b where "urljoin w cur href = Some a" "netloc w (clean_url a) = Some n"
      "netloc w (base_url self) = Some b" by blast
    moreover from True Cons.prems
    have "\<not> (\<forall>href\<in>set hrefs. \<exists>a n b. urljoin w cur href = Some a
             \<and> netloc w (clean_url a) = Some n \<and> netloc w (base_url self) = Some b)"
      by auto
    ultimately show ?thesis
      by (simp add: is_valid_url_def Let_def Cons.IH)
  next
    case False
    then show ?thesis
      by (auto simp: is_valid_url_def Let_def split: option.splits sum.splits)
  qed
qed

text \<open>
  C6, as stated, fails on a page with an \<open>href\<close> that \<open>urljoin\<close> rejects: \<open>get_links\<close>
  raises \<open>ValueError\<close> and returns no list, and \<open>scrape_page\<close>, which catches the
  exception, returns no link of the page, the good one included.
\<close>

theorem get_links_raises_on_bad_href:
  "get_links bad_href_web (init_scraper ''https://docs.x.com/'') bad_href_page
       ''https://docs.x.com/'' = Inl ValueError
   \<and> fst (scrape_page bad_href_web (init_scraper ''https://docs.x.com/'') ''https://docs.x.com/'')
       = ReturnLinks []"
  by code_simp

text \<open>
  C6, amended: for a page and a current URL such that \<open>urljoin\<close> accepts every \<open>href\<close>
  and \<open>urlparse\<close> accepts every cleaned URL and the base URL, \<open>get_links\<close> returns, in
  the order of the anchors, each \<open>href\<close> joined to the current URL and cleaned, keeping
  those whose network location is that of the base URL and which are not in the visited
  set; cleaning a URL cuts it at its first \<open>#\<close> and then at its first \<open>?\<close>, and
  \<open>https://docs.x.com/a?x=1#frag\<close> is cleaned to \<open>https://docs.x.com/a\<close>.
\<close>

theorem get_links_normalized:
  "((\<forall>href\<in>set (anchors sp). \<exists>a n b. urljoin w current_url href = Some a
        \<and> netloc w (clean_url a) = Some n \<and> netloc w (base_url self) = Some b) \<longrightarrow>
      get_links w self sp current_url =
        Inr (filter (\<lambda>u. netloc w u = netloc w (base_url self) \<and> u \<notin> visited_urls self)
               (map clean_url (List.map_filter (urljoin w current_url) (anchors sp)))))
   \<and> (\<forall>u. clean_url u = takeWhile (\<lambda>c. c \<noteq> CHR ''?'') (takeWhile (\<lambda>c. c \<noteq> CHR ''#'') u))
   \<and> clean_url ''https://docs.x.com/a?x=1#frag'' = ''https://docs.x.com/a''"
proof (intro conjI impI allI)
  assume "\<forall>href\<in>set (anchors sp). \<exists>a n b. urljoin w current_url href = Some a
        \<and> netloc w (clean_url a) = Some n \<and> netloc w (base_url self) = Some b"
  then show "get_links w self sp current_url =
        Inr (filter (\<lambda>u. netloc w u = netloc w (base_url self) \<and> u \<notin> visited_urls self)
               (map clean_url (List.map_filter (urljoin w current_url) (anchors sp))))"
    unfolding get_links_def by (simp add: get_links_loop_resolved)
next
  fix u
  show "clean_url u = takeWhile (\<lambda>c. c \<noteq> CHR ''?'') (takeWhile (\<lambda>c. c \<noteq> CHR ''#'') u)"
    by (rule clean_url_takeWhile)
next
  show "clean_url ''https://docs.x.com/a?x=1#frag'' = ''https://docs.x.com/a''"
    by (simp add: clean_url_def)
qed

theorem get_links_normalized_witness:
  "list_all (\<lambda>href. urljoin demo_web ''https://docs.x.com/'' href = Some href
                      \<and> netloc demo_web (clean_url href) \<noteq> None) (anchors home_page)
   \<and> netloc demo_web (base_url home_scraper) = Some ''docs.x.com''
   \<and> get_links demo_web home_scraper home_page ''https://docs.x.com/''
       = Inr [''https://docs.x.com/f'', ''https://docs.x.com/e'', ''https://docs.x.com/f'']"
proof -
  have h1: "list_all (\<lambda>href. urljoin demo_web ''https://docs.x.com/'' href = Some href
                      \<and> netloc demo_web (clean_url href) \<noteq> None) (anchors home_page)"
    by (simp add: home_page_def demo_web_def abs_urljoin_def https_netloc_def)
  have h2: "netloc demo_web (base_url home_scraper) = Some ''docs.x.com''"
    by (simp add: home_scraper_def init_scraper_def demo_web_def https_netloc_def)
  from h1 h2 have h: "\<forall>href\<in>set (anchors home_page). \<exists>a n b.
        urljoin demo_web ''https://docs.x.com/'' href = Some a
        \<and> netloc demo_web (clean_url a) = Some n
        \<and> netloc demo_web (base_url home_scraper) = Some b"
    by (auto simp: list_all_iff)
  have v: "filter (\<lambda>u. netloc demo_web u = netloc demo_web (base_url home_scraper)
                     \<and> u \<notin> visited_urls home_scraper)
             (map clean_url (List.map_filter (urljoin demo_web ''https://docs.x.com/'')
                (anchors home_page)))
       = [''https://docs.x.com/f'', ''https://docs.x.com/e'', ''https://docs.x.com/f'']"
    by code_simp
  from get_links_normalized [of home_page demo_web "''https://docs.x.com/''" home_scraper] h
  have "get_links demo_web home_scraper home_page ''https://docs.x.com/''
       = Inr (filter (\<lambda>u. netloc demo_web u = netloc demo_web (base_url home_scraper)
                     \<and> u \<notin> visited_urls home_scraper)
             (map clean_url (List.map_filter (urljoin demo_web ''https://docs.x.com/'')
                (anchors home_page))))"
    by blast
  with h1 h2 v show ?thesis by simp
qed

section \<open>Properties of the response composer\<close>

lemma relevant_loop_eq:
  "length acc < 3 \<Longrightarrow>
   relevant_loop terms ss acc
     = acc @ take (3 - length acc)
               (filter (\<lambda>s. list_ex (\<lambda>t. contains t (str_lower s)) terms) ss)"
proof (induction ss arbitrary: acc)
  case Nil
  then show ?case by simp
next
  case (Cons s ss)
  show ?case
  proof (cases "list_ex (\<lambda>t. contains t (str_lower s)) terms")
    case False
    with Cons show ?thesis by simp
  next
    case True
    show ?thesis
    proof (cases "length acc = 2")
      case True
      with \<open>list_ex _ terms\<close> show ?thesis by (simp add: Let_def)
    next
      case False
      with Cons.prems have "length (acc @ [s]) < 3" by simp
      from Cons.IH [OF this] True Cons.prems False show ?thesis
        by (simp add: Let_def Suc_diff_Suc take_Cons')
    qed
  qed
qed

lemma header_not_apology: "response_header t @ rest \<noteq> apology"
  by (simp add: response_header_def apology_def)

text \<open>
  C8: for a top record with non-empty content, the sentences are the pieces between
  periods of the content with every newline replaced by a period and a space, trimmed,
  those longer than 20 characters after trimming; the body of the response is the first 3
  sentences that contain a query term (on lower-cased text) joined, or if there is none
  the first 4 sentences longer than 30 characters joined, or if there is none the first
  500 characters of the content and three dots; in particular, with no sentence
  containing a query term and some sentence longer than 30 characters the response is
  the one made of the long sentences; and the response is never the apology.
\<close>

theorem response_fallback_chain:
  "content doc \<noteq> [] \<longrightarrow>
     (let terms = str_split (str_lower query);
          sentences = map str_strip (filter (\<lambda>s. 20 < length (str_strip s))
                        (split_on CHR ''.'' (str_replace CHR 0x0A ''. '' (content doc))));
          matching = take 3 (filter (\<lambda>s. list_ex (\<lambda>t. contains t (str_lower s)) terms) sentences);
          long = take 4 (filter (\<lambda>s. 30 < length s) sentences);
          body = (if matching \<noteq> [] then str_join ''. '' matching @ ''.''
                  else if long \<noteq> [] then str_join ''. '' long @ ''.''
                  else take 500 (content doc) @ ''...'')
      in generate_response query (doc # others)
           = response_header (title doc) @ body @ response_footer
         \<and> (matching = [] \<and> long \<noteq> [] \<longrightarrow>
              generate_response query (doc # others)
                = response_header (title doc) @ str_join ''. '' long @ ''.'' @ response_footer))
     \<and> generate_response query (doc # others) \<noteq> apology"
proof
  assume ne: "content doc \<noteq> []"
  have loop: "relevant_loop terms ss [] =
      take 3 (filter (\<lambda>s. list_ex (\<lambda>t. contains t (str_lower s)) terms) ss)" for terms ss
    using relevant_loop_eq [of "[]" terms ss] by simp
  from ne have "generate_response query (doc # others) \<noteq> apology"
    by (simp add: generate_response_def Let_def loop header_not_apology)
  moreover from ne have "(let terms = str_split (str_lower query);
          sentences = map str_strip (filter (\<lambda>s. 20 < length (str_strip s))
                        (split_on CHR ''.'' (str_replace CHR 0x0A ''. '' (content doc))));
          matching = take 3 (filter (\<lambda>s. list_ex (\<lambda>t. contains t (str_lower s)) terms) sentences);
          long = take 4 (filter (\<lambda>s. 30 < length s) sentences);
          body = (if matching \<noteq> [] then str_join ''. '' matching @ ''.''
                  else if long \<noteq> [] then str_join ''. '' long @ ''.''
                  else take 500 (content doc) @ ''...'')
      in generate_response query (doc # others)
           = response_header (title doc) @ body @ response_footer
         \<and> (matching = [] \<and> long \<noteq> [] \<longrightarrow>
              generate_response query (doc # others)
                = response_header (title doc) @ str_join ''. '' long @ ''.'' @ response_footer))"
    by (simp add: generate_response_def Let_def loop)
  ultimately show "(let terms = str_split (str_lower query);
          sentences = map str_strip (filter (\<lambda>s. 20 < length (str_strip s))
                        (split_on CHR ''.'' (str_replace CHR 0x0A ''. '' (content doc))));
          matching = take 3 (filter (\<lambda>s. list_ex (\<lambda>t. contains t (str_lower s)) terms) sentences);
          long = take 4 (filter (\<lambda>s. 30 < length s) sentences);
          body = (if matching \<noteq> [] then str_join ''. '' matching @ ''.''
                  else if long \<noteq> [] then str_join ''. '' long @ ''.''
                  else take 500 (content doc) @ ''...'')
      in generate_response query (doc # others)
           = response_header (title doc) @ body @ response_footer
         \<and> (matching = [] \<and> long \<noteq> [] \<longrightarrow>
              generate_response query (doc # others)
                = response_header (title doc) @ str_join ''. '' long @ ''.'' @ response_footer))
     \<and> generate_response query (doc # others) \<noteq> apology"
    by simp
qed

theorem response_fallback_chain_witness:
  "content fallback_doc \<noteq> []
   \<and> generate_response ''zebra'' [fallback_doc]
       = response_header ''Crawler''
         @ ''The scraper visits every page of the site exactly once.'' @ response_footer
   \<and> generate_response ''zebra'' [fallback_doc] \<noteq> apology"
proof -
  have h: "content fallback_doc \<noteq> []"
    by (simp add: fallback_doc_def)
  have v: "generate_response ''zebra'' [fallback_doc]
       = response_header ''Crawler''
         @ ''The scraper visits every page of the site exactly once.'' @ response_footer"
    by code_simp
  from response_fallback_chain [of fallback_doc "''zebra''" "[]"] h
  have "generate_response ''zebra'' [fallback_doc] \<noteq> apology"
    by blast
  with h v show ?thesis by blast
qed

section \<open>Properties of the corpus store\<close>

subsection \<open>Strings\<close>











subsection \<open>White space and the first character of a value\<close>











subsection \<open>The decoder reads what the encoder writes\<close>












subsection \<open>Saving and loading\<close>








text \<open>The encoder on the two example records: the text of the file.\<close>

lemma json_dump_two_docs: "json_dump [api_doc, install_doc] = two_docs_json"
  by code_simp


end
